theory Spec2Isabelle
  imports Main "HOL-Library.Char_ord" "HOL-Library.List_Lexorder" "HOL-Library.Multiset"
begin

section \<open>static\_def\_gen.py: embedding binary files in a C++ source file\<close>

text \<open>
  The script \<^verbatim>\<open>src/codegen/static_def_gen.py\<close> enumerates files below directories and
  members of .zip archives, keeps those whose relative path is matched by the regular
  expression given with the source, sorts them by path, and writes one byte array and one
  path constant per file, followed by a table of all files.

  Python strings and file contents are modelled as \<^typ>\<open>string\<close> (lists of 8-bit
  characters, ordered lexicographically by character code, as Python orders \<open>str\<close>).
  Exceptions are values of \<open>error\<close>. Paths follow \<open>posixpath\<close>.
\<close>

subsection \<open>Exceptions\<close>

datatype error =
    IndexError     \<comment> \<open>list index out of range\<close>
  | KeyError       \<comment> \<open>\<open>ZipFile.open\<close> of a name the archive does not hold\<close>
  | re_error       \<comment> \<open>\<open>re.error\<close>: the pattern is not a regular expression\<close>
  | IOError        \<comment> \<open>the file cannot be opened (missing, permission denied)\<close>
  | BadZipfile     \<comment> \<open>\<open>zipfile.BadZipfile\<close>: the file is not a zip archive\<close>

subsection \<open>Python built-ins used by the script\<close>

text \<open>\<open>s.split(sep, maxsplit)\<close> for a one-character separator: at most \<open>maxsplit\<close> splits
  are done, so the result has at most \<open>maxsplit + 1\<close> elements.\<close>

fun str_split :: "string \<Rightarrow> char \<Rightarrow> nat \<Rightarrow> string list" where
  "str_split s sep 0 = [s]"
| "str_split s sep (Suc maxsplit) =
     (if sep \<in> set s
      then takeWhile (\<lambda>c. c \<noteq> sep) s
             # str_split (drop 1 (dropWhile (\<lambda>c. c \<noteq> sep) s)) sep maxsplit
      else [s])"

text \<open>\<open>xs[i]\<close> for \<open>i \<ge> 0\<close>: raises \<open>IndexError\<close> out of range.\<close>

definition getitem :: "'a list \<Rightarrow> nat \<Rightarrow> error + 'a" where
  "getitem xs i = (if i < length xs then Inr (xs ! i) else Inl IndexError)"

text \<open>\<open>s.replace(old, new)\<close> for one-character \<open>old\<close> and \<open>new\<close>.\<close>

definition str_replace :: "string \<Rightarrow> char \<Rightarrow> char \<Rightarrow> string" where
  "str_replace s old new = map (\<lambda>c. if c = old then new else c) s"

text \<open>\<open>s.rfind(c)\<close>: the highest index of \<open>c\<close> in \<open>s\<close>, or \<open>-1\<close>.\<close>

definition rfind :: "string \<Rightarrow> char \<Rightarrow> int" where
  "rfind s c =
     (if c \<in> set s then int (length s) - 1 - int (length (takeWhile (\<lambda>d. d \<noteq> c) (rev s)))
      else - 1)"

text \<open>\<open>ord(byte)\<close> of a one-character string, and \<open>str(n)\<close> of a non-negative integer.\<close>

definition ord :: "char \<Rightarrow> nat" where
  "ord c = of_char c"

definition digit :: "nat \<Rightarrow> char" where
  "digit d = char_of (48 + d)"

fun str :: "nat \<Rightarrow> string" where
  "str n = (if n < 10 then [digit n] else str (n div 10) @ [digit (n mod 10)])"

declare str.simps [simp del]

subsection \<open>posixpath\<close>

text \<open>\<open>os.path.join(a, b)\<close> with two arguments.\<close>

definition join :: "string \<Rightarrow> string \<Rightarrow> string" where
  "join a b =
     (if b \<noteq> [] \<and> hd b = CHR ''/'' then b
      else if a = [] \<or> last a = CHR ''/'' then a @ b
      else a @ ''/'' @ b)"

text \<open>\<open>os.path.basename(p)\<close>: \<open>i = p.rfind('/') + 1; return p[i:]\<close>.\<close>

definition basename :: "string \<Rightarrow> string" where
  "basename p = (let i = rfind p CHR ''/'' + 1 in drop (nat i) p)"

text \<open>\<open>os.path.relpath(path, start)\<close> makes both paths absolute and normal and returns the
  way from \<open>start\<close> to \<open>path\<close>. The script calls it only with a \<open>path\<close> that \<open>os.walk\<close>
  built from \<open>start\<close> by joining the names of directory entries; there the result is the
  part of \<open>path\<close> below \<open>start\<close>, which is what this model returns.\<close>

definition relpath :: "string \<Rightarrow> string \<Rightarrow> string" where
  "relpath p start = drop (length (join start [])) p"

text \<open>\<open>os.path.splitext(p)\<close>, from \<open>genericpath._splitext\<close>: the extension starts at the
  last dot of the last path component, leading dots of that component apart.\<close>

function splitext_loop :: "string \<Rightarrow> int \<Rightarrow> int \<Rightarrow> string \<times> string" where
  "splitext_loop p dotIndex filenameIndex =
     (if filenameIndex < dotIndex
      then (if p ! nat filenameIndex \<noteq> CHR ''.''
            then (take (nat dotIndex) p, drop (nat dotIndex) p)
            else splitext_loop p dotIndex (filenameIndex + 1))
      else (p, []))"
  by pat_completeness auto
termination
  by (relation "measure (\<lambda>(p, dotIndex, filenameIndex). nat (dotIndex - filenameIndex))") auto

declare splitext_loop.simps [simp del]

definition splitext :: "string \<Rightarrow> string \<times> string" where
  "splitext p =
     (let sepIndex = rfind p CHR ''/'';
          dotIndex = rfind p CHR ''.''
      in if dotIndex > sepIndex then splitext_loop p dotIndex (sepIndex + 1) else (p, []))"

text \<open>\<open>re.sub('^\\.', '', s)\<close>: a dot at the start of \<open>s\<close> is removed.\<close>

definition strip_leading_dot :: "string \<Rightarrow> string" where
  "strip_leading_dot s = (case s of [] \<Rightarrow> [] | c # cs \<Rightarrow> if c = CHR ''.'' then cs else s)"

subsection \<open>Regular expressions\<close>

text \<open>The module \<open>re\<close> is not part of the script. It is a parameter of the model: an engine
  compiles a pattern string (\<open>None\<close> when \<open>re.compile\<close> raises \<open>re.error\<close>) and says
  whether a compiled pattern matches the text of \<open>s\<close> between the positions \<open>i\<close> and \<open>j\<close>,
  seen inside the whole of \<open>s\<close>.\<close>

record 'p regex_engine =
  re_compile :: "string \<Rightarrow> 'p option"
  re_span :: "'p \<Rightarrow> string \<Rightarrow> nat \<Rightarrow> nat \<Rightarrow> bool"

text \<open>\<open>pattern.match(s)\<close>: a match that starts at position 0 and ends anywhere.
  \<open>pattern.fullmatch(s)\<close> and \<open>pattern.search(s)\<close>, which the script does not call, are
  given for comparison.\<close>

definition Pattern_match :: "'p regex_engine \<Rightarrow> 'p \<Rightarrow> string \<Rightarrow> bool" where
  "Pattern_match re pattern s = list_ex (\<lambda>j. re_span re pattern s 0 j) [0..<Suc (length s)]"

definition Pattern_fullmatch :: "'p regex_engine \<Rightarrow> 'p \<Rightarrow> string \<Rightarrow> bool" where
  "Pattern_fullmatch re pattern s = re_span re pattern s 0 (length s)"

definition Pattern_search :: "'p regex_engine \<Rightarrow> 'p \<Rightarrow> string \<Rightarrow> bool" where
  "Pattern_search re pattern s =
     list_ex (\<lambda>i. list_ex (\<lambda>j. re_span re pattern s i j) [i..<Suc (length s)])
       [0..<Suc (length s)]"

text \<open>A concrete engine for a fragment of Python's syntax: literal characters, \<open>.\<close>,
  \<open>^\<close>, \<open>$\<close>, \<open>|\<close>, groups in parentheses, the repetitions \<open>*\<close>, \<open>+\<close>, \<open>?\<close>, and a
  backslash before a character that is neither a letter nor a digit. It rejects every
  other pattern, so it stands for \<open>re\<close> only on this fragment; it is used for the
  concrete runs below.\<close>

datatype regex =
    Lit char | AnyChar | Bol | Eol | Empty
  | Seq regex regex | Alt regex regex | Star regex

fun seq_of :: "regex list \<Rightarrow> regex" where
  "seq_of [] = Empty"
| "seq_of [a] = a"
| "seq_of (a # b # bs) = Seq a (seq_of (b # bs))"

fun alt_of :: "regex list \<Rightarrow> regex" where
  "alt_of [] = Empty"
| "alt_of [a] = a"
| "alt_of (a # b # bs) = Alt a (alt_of (b # bs))"

text \<open>A frame holds the finished branches and the items of the open branch of one group,
  both latest first.\<close>

type_synonym frame = "regex list \<times> regex list"

definition close_frame :: "frame \<Rightarrow> regex" where
  "close_frame f = alt_of (rev (seq_of (rev (snd f)) # fst f))"

definition quantify :: "char \<Rightarrow> regex \<Rightarrow> regex" where
  "quantify c a =
     (if c = CHR ''*'' then Star a
      else if c = CHR ''+'' then Seq a (Star a)
      else Alt a Empty)"

definition alnum :: "char \<Rightarrow> bool" where
  "alnum c = (let n = (of_char c :: nat)
              in (48 \<le> n \<and> n \<le> 57) \<or> (65 \<le> n \<and> n \<le> 90) \<or> (97 \<le> n \<and> n \<le> 122))"

text \<open>The flag says whether the item read last may be repeated.\<close>

fun parse :: "frame list \<Rightarrow> bool \<Rightarrow> string \<Rightarrow> regex option" where
  "parse [] q cs = None"
| "parse [f] q [] = Some (close_frame f)"
| "parse (f # g # fs) q [] = None"
| "parse ((alts, sq) # fs) q (c # cs) =
     (if c = CHR ''('' then parse (([], []) # (alts, sq) # fs) False cs
      else if c = CHR '')'' then
        (case fs of
           [] \<Rightarrow> None
         | (alts', sq') # fs' \<Rightarrow> parse ((alts', close_frame (alts, sq) # sq') # fs') True cs)
      else if c = CHR ''|'' then parse ((seq_of (rev sq) # alts, []) # fs) False cs
      else if c = CHR ''*'' \<or> c = CHR ''+'' \<or> c = CHR ''?'' then
        (case sq of
           [] \<Rightarrow> None
         | a # sq' \<Rightarrow> if q then parse ((alts, quantify c a # sq') # fs) False cs else None)
      else if c = CHR 0x5C then
        (case cs of
           [] \<Rightarrow> None
         | d # ds \<Rightarrow> if alnum d then None else parse ((alts, Lit d # sq) # fs) True ds)
      else if c = CHR ''.'' then parse ((alts, AnyChar # sq) # fs) True cs
      else if c = CHR 0x5E then parse ((alts, Bol # sq) # fs) False cs
      else if c = CHR ''$'' then parse ((alts, Eol # sq) # fs) False cs
      else if c = CHR ''['' \<or> c = CHR '']'' \<or> c = CHR ''{'' \<or> c = CHR ''}'' then None
      else parse ((alts, Lit c # sq) # fs) True cs)"

text \<open>The positions a repetition can reach: \<open>n\<close> rounds of one more step.\<close>

fun closure :: "(nat \<Rightarrow> nat list) \<Rightarrow> nat \<Rightarrow> nat list \<Rightarrow> nat list" where
  "closure step 0 acc = acc"
| "closure step (Suc n) acc = closure step n (remdups (acc @ concat (map step acc)))"

text \<open>\<open>ends r s i\<close>: the positions where a match of \<open>r\<close> that starts at \<open>i\<close> in \<open>s\<close> can
  end. Without flags, \<open>.\<close> does not match a newline, \<open>^\<close> matches at the start of the
  string, and \<open>$\<close> at its end or before a newline that ends it.\<close>

fun ends :: "regex \<Rightarrow> string \<Rightarrow> nat \<Rightarrow> nat list" where
  "ends (Lit c) s i = (if i < length s \<and> s ! i = c then [Suc i] else [])"
| "ends AnyChar s i = (if i < length s \<and> s ! i \<noteq> CHR 0x0A then [Suc i] else [])"
| "ends Bol s i = (if i = 0 then [i] else [])"
| "ends Eol s i =
     (if i = length s \<or> (Suc i = length s \<and> s ! i = CHR 0x0A) then [i] else [])"
| "ends Empty s i = [i]"
| "ends (Seq a b) s i = remdups (concat (map (\<lambda>j. ends b s j) (ends a s i)))"
| "ends (Alt a b) s i = remdups (ends a s i @ ends b s i)"
| "ends (Star a) s i = closure (\<lambda>j. ends a s j) (length s) [i]"

definition py_re :: "regex regex_engine" where
  "py_re = \<lparr> re_compile = parse [([], [])] False,
            re_span = (\<lambda>r s i j. j \<in> set (ends r s i)) \<rparr>"

subsection \<open>The file system\<close>

text \<open>What the script reads is fixed during a run; in particular the output file is not
  among the files it reads. A directory lists its files, each
  with the bytes that opening it for reading gives (\<open>None\<close> when \<open>open\<close> raises), and its
  subdirectories; a directory that cannot be listed is \<open>Unlistable\<close>.\<close>

datatype tree =
    Listing "(string \<times> string option) list" "(string \<times> tree) list"
  | Unlistable

text \<open>What a path names: nothing, something that is not a directory and cannot be opened,
  a directory, a file that is not a zip archive, or a zip archive with its members in the
  order of its directory.\<close>

datatype node =
    Missing
  | Unreadable
  | Directory tree
  | NotZip
  | Zip "(string \<times> string) list"

record filesystem =
  node :: "string \<Rightarrow> node"
  writable :: "string \<Rightarrow> bool"   \<comment> \<open>whether \<open>open(path, 'w+')\<close> succeeds\<close>

definition isdir :: "filesystem \<Rightarrow> string \<Rightarrow> bool" where
  "isdir fs p = (case node fs p of Directory t \<Rightarrow> True | _ \<Rightarrow> False)"

text \<open>\<open>os.walk(root)\<close>, top down, with the default \<open>onerror=None\<close>: a directory that cannot
  be listed is skipped without an error. Each triple is \<open>(root, dirs, files)\<close>; the model
  keeps with each file name what opening that file will give.\<close>

fun walk :: "string \<Rightarrow> tree \<Rightarrow> (string \<times> string list \<times> (string \<times> string option) list) list" where
  "walk root Unlistable = []"
| "walk root (Listing files dirs) =
     (root, map fst dirs, files) # concat (map (\<lambda>(name, t). walk (join root name) t) dirs)"

definition os_walk ::
  "filesystem \<Rightarrow> string \<Rightarrow> (string \<times> string list \<times> (string \<times> string option) list) list" where
  "os_walk fs root = (case node fs root of Directory t \<Rightarrow> walk root t | _ \<Rightarrow> [])"

text \<open>\<open>open(full_path, 'rb')\<close> followed by reading, on a file found by the walk.\<close>

definition open_rb :: "string option \<Rightarrow> error + string" where
  "open_rb content = (case content of None \<Rightarrow> Inl IOError | Some bytes \<Rightarrow> Inr bytes)"

text \<open>\<open>zipfile.ZipFile(p, 'r')\<close>, \<open>jar.namelist()\<close> and \<open>jar.open(name)\<close>. Two members may
  have the same name; \<open>open\<close> then gives the later one.\<close>

definition ZipFile :: "filesystem \<Rightarrow> string \<Rightarrow> error + (string \<times> string) list" where
  "ZipFile fs p =
     (case node fs p of
        Missing \<Rightarrow> Inl IOError
      | Unreadable \<Rightarrow> Inl IOError
      | Directory t \<Rightarrow> Inl IOError
      | NotZip \<Rightarrow> Inl BadZipfile
      | Zip members \<Rightarrow> Inr members)"

definition namelist :: "(string \<times> string) list \<Rightarrow> string list" where
  "namelist jar = map fst jar"

definition jar_open :: "(string \<times> string) list \<Rightarrow> string \<Rightarrow> error + string" where
  "jar_open jar name =
     (case map_of (rev jar) name of None \<Rightarrow> Inl KeyError | Some bytes \<Rightarrow> Inr bytes)"

subsection \<open>The script\<close>

text \<open>The dictionaries that \<open>EnumerateInputs\<close> yields. The value under \<open>'open'\<close> is a
  function without arguments that opens the file; since what is read does not change
  during the run, the model keeps what calling it gives: an exception or the bytes of the
  stream.\<close>

record entry =
  path :: string
  opener :: "error + string"

text \<open>The body of the loop of \<open>EnumerateInputs\<close> for one argument: the dictionaries it
  yields and the exception that ends it, if any. The nested loops with their \<open>yield\<close>
  are written as concatenations.\<close>

definition enumerate_input ::
  "'p regex_engine \<Rightarrow> filesystem \<Rightarrow> string \<Rightarrow> entry list \<times> error option" where
  "enumerate_input re fs current_input =
     (let components = str_split current_input CHR '':'' 2 in
      case getitem components 0 of
        Inl e \<Rightarrow> ([], Some e)
      | Inr entry \<Rightarrow>
         (case getitem components 1 of
            Inl e \<Rightarrow> ([], Some e)
          | Inr pat \<Rightarrow>
             (case re_compile re pat of
                None \<Rightarrow> ([], Some re_error)
              | Some pattern \<Rightarrow>
                 if isdir fs entry then
                   (concat (map (\<lambda>(root, unused_subdirs, files).
                      concat (map (\<lambda>(file_name, content).
                        let full_path = join root file_name;
                            relative_path = relpath full_path entry
                        in if Pattern_match re pattern relative_path
                           then [\<lparr> path = relative_path, opener = open_rb content \<rparr>]
                           else [])
                        files))
                      (os_walk fs entry)),
                    None)
                 else
                   (case ZipFile fs entry of
                      Inl e \<Rightarrow> ([], Some e)
                    | Inr jar \<Rightarrow>
                       (concat (map (\<lambda>entry.
                          if Pattern_match re pattern entry
                          then [\<lparr> path = entry, opener = jar_open jar entry \<rparr>]
                          else [])
                          (namelist jar)),
                        None)))))"

text \<open>The generator: everything yielded, in order, and the exception that stopped the
  iteration, if one did. Nothing of a later argument is looked at before the loop body
  of an earlier one is finished.\<close>

fun EnumerateInputs ::
  "'p regex_engine \<Rightarrow> filesystem \<Rightarrow> string list \<Rightarrow> entry list \<times> error option" where
  "EnumerateInputs re fs [] = ([], None)"
| "EnumerateInputs re fs (current_input # inputs) =
     (case enumerate_input re fs current_input of
        (ys, Some e) \<Rightarrow> (ys, Some e)
      | (ys, None) \<Rightarrow>
         (case EnumerateInputs re fs inputs of (zs, r) \<Rightarrow> (ys @ zs, r)))"

text \<open>\<open>_GetName\<close>.\<close>

definition GetName :: "entry \<Rightarrow> string" where
  "GetName item =
     str_replace (str_replace (basename (path item)) CHR ''.'' CHR ''_'') CHR ''$'' CHR ''_''"

text \<open>\<open>sorted(generator, key=lambda binary_file: binary_file['path'])\<close>: an exception of
  the generator leaves \<open>sorted\<close>; otherwise the list is sorted by path, and the sort is
  stable.\<close>

definition sorted_by_path :: "entry list \<times> error option \<Rightarrow> error + entry list" where
  "sorted_by_path gen =
     (case gen of (ys, Some e) \<Rightarrow> Inl e | (ys, None) \<Rightarrow> Inr (sort_key path ys))"

text \<open>The output file is the text written so far; \<open>cc_file.write(s)\<close> appends.\<close>

definition file_write :: "string \<Rightarrow> string \<Rightarrow> string" where
  "file_write cc_file s = cc_file @ s"

text \<open>The loop \<open>while byte:\<close> (lines 128 to 131); \<open>f\<close> is what is left of the stream.\<close>

function read_loop :: "string \<Rightarrow> string \<Rightarrow> string \<Rightarrow> string" where
  "read_loop byte f cc_file =
     (if byte \<noteq> []
      then read_loop (take 1 f) (drop 1 f) (file_write cc_file (str (ord (hd byte)) @ '', ''))
      else cc_file)"
  by pat_completeness auto
termination
  by (relation "measure (\<lambda>(byte, f, cc_file). length byte + length f)")
    (auto simp: min_def neq_Nil_conv)

declare read_loop.simps [simp del]

text \<open>Lines 125 to 132, once the stream is open.\<close>

definition write_array :: "string \<Rightarrow> string \<Rightarrow> string \<Rightarrow> string" where
  "write_array cc_file name f =
     (let cc_file = file_write cc_file (''static constexpr uint8 k'' @ name @ ''[] = { '');
          byte = take 1 f;
          f = drop 1 f;
          cc_file = read_loop byte f cc_file
      in file_write cc_file (''};'' @ [CHR 0x0A]))"

text \<open>The first loop over \<open>binary_files\<close> (lines 122 to 134).\<close>

fun write_arrays :: "string \<Rightarrow> entry list \<Rightarrow> error + string" where
  "write_arrays cc_file [] = Inr cc_file"
| "write_arrays cc_file (binary_file # binary_files) =
     (let name = GetName binary_file in
      case opener binary_file of
        Inl e \<Rightarrow> Inl e
      | Inr f \<Rightarrow>
         (let cc_file = write_array cc_file name f;
              cc_file = file_write cc_file
                (''static constexpr char k'' @ name @ ''_path[] = '' @ [CHR 0x22]
                 @ path binary_file @ [CHR 0x22] @ '';'' @ [CHR 0x0A])
          in write_arrays cc_file binary_files))"

text \<open>The body of the second loop (lines 145 to 153) and the loop.\<close>

definition extension :: "string \<Rightarrow> string" where
  "extension p = strip_leading_dot (snd (splitext p))"

definition write_record :: "string \<Rightarrow> entry \<Rightarrow> string" where
  "write_record cc_file binary_file =
     (let name = GetName binary_file;
          ext = extension (path binary_file);
          cc_file = file_write cc_file (''  {'' @ [CHR 0x0A]);
          cc_file = file_write cc_file (''    k'' @ name @ ''_path,'' @ [CHR 0x0A]);
          cc_file = file_write cc_file (''    '' @ [CHR 0x22] @ ext @ [CHR 0x22] @ '','' @ [CHR 0x0A]);
          cc_file = file_write cc_file (''    k'' @ name @ '','' @ [CHR 0x0A]);
          cc_file = file_write cc_file (''    arraysize(k'' @ name @ '')'' @ [CHR 0x0A])
      in file_write cc_file (''  },'' @ [CHR 0x0A]))"

fun write_table :: "string \<Rightarrow> entry list \<Rightarrow> string" where
  "write_table cc_file [] = cc_file"
| "write_table cc_file (binary_file # binary_files) =
     write_table (write_record cc_file binary_file) binary_files"

text \<open>\<open>Generate\<close>: the text of the output file, or the exception that ended the run.\<close>

definition Generate ::
  "'p regex_engine \<Rightarrow> filesystem \<Rightarrow> string \<Rightarrow> string list \<Rightarrow> error + string" where
  "Generate re fs cc_file_path inputs =
     (if \<not> writable fs cc_file_path then Inl IOError
      else
        case sorted_by_path (EnumerateInputs re fs inputs) of
          Inl e \<Rightarrow> Inl e
        | Inr binary_files \<Rightarrow>
           (case write_arrays [] binary_files of
              Inl e \<Rightarrow> Inl e
            | Inr cc_file \<Rightarrow>
               (let cc_file = file_write cc_file [CHR 0x0A];
                    cc_file = file_write cc_file (''static constexpr struct {'' @ [CHR 0x0A]);
                    cc_file = file_write cc_file (''  const char* path;'' @ [CHR 0x0A]);
                    cc_file = file_write cc_file (''  const char* extension;'' @ [CHR 0x0A]);
                    cc_file = file_write cc_file (''  const uint8* data;'' @ [CHR 0x0A]);
                    cc_file = file_write cc_file (''  int data_size;'' @ [CHR 0x0A]);
                    cc_file = file_write cc_file (''} kBinaryFiles[] = {'' @ [CHR 0x0A]);
                    cc_file = write_table cc_file binary_files
                in Inr (file_write cc_file (''};'' @ [CHR 0x0A])))))"

text \<open>\<open>main\<close>: the usage text and \<open>sys.exit(-1)\<close>, an exception that nothing catches, or
  the output file.\<close>

datatype outcome = Usage | Raised error | Written string

definition main :: "'p regex_engine \<Rightarrow> filesystem \<Rightarrow> string list \<Rightarrow> outcome" where
  "main re fs argv =
     (if length argv < 3 then Usage
      else if argv ! 1 \<in> set [''-?'', ''--?'', ''-h'', ''--help''] then Usage
      else case Generate re fs (argv ! 1) (drop 2 argv) of
             Inl e \<Rightarrow> Raised e
           | Inr cc_file \<Rightarrow> Written cc_file)"

subsection \<open>Notions used to state the properties\<close>

text \<open>Everything a source offers before the pattern is applied: the files below a
  directory, or the members of an archive; nothing when the source cannot be opened.\<close>

definition scanned :: "filesystem \<Rightarrow> string \<Rightarrow> entry list" where
  "scanned fs entry =
     (if isdir fs entry then
        concat (map (\<lambda>(root, unused_subdirs, files).
          map (\<lambda>(file_name, content).
            \<lparr> path = relpath (join root file_name) entry, opener = open_rb content \<rparr>) files)
          (os_walk fs entry))
      else
        (case ZipFile fs entry of
           Inl e \<Rightarrow> []
         | Inr jar \<Rightarrow> map (\<lambda>name. \<lparr> path = name, opener = jar_open jar name \<rparr>) (namelist jar)))"

text \<open>The scanned entries of an argument \<open>location:pattern\<close> whose path the pattern
  matches at position 0.\<close>

definition matched :: "'p regex_engine \<Rightarrow> filesystem \<Rightarrow> string \<Rightarrow> entry list" where
  "matched re fs current_input =
     (case str_split current_input CHR '':'' 2 of
        entry # pat # rest \<Rightarrow>
          (case re_compile re pat of
             None \<Rightarrow> []
           | Some pattern \<Rightarrow>
               filter (\<lambda>e. Pattern_match re pattern (path e)) (scanned fs entry))
      | _ \<Rightarrow> [])"

text \<open>The text between the two loops of \<open>Generate\<close> (lines 136 to 143).\<close>

definition table_header :: string where
  "table_header =
     [CHR 0x0A] @ ''static constexpr struct {'' @ [CHR 0x0A]
     @ ''  const char* path;'' @ [CHR 0x0A]
     @ ''  const char* extension;'' @ [CHR 0x0A]
     @ ''  const uint8* data;'' @ [CHR 0x0A]
     @ ''  int data_size;'' @ [CHR 0x0A]
     @ ''} kBinaryFiles[] = {'' @ [CHR 0x0A]"

text \<open>The elements that one pass of the loop \<open>while byte:\<close> writes for a stream.\<close>

definition array_items :: "string \<Rightarrow> string" where
  "array_items f = concat (map (\<lambda>b. str (ord b) @ '', '') f)"

text \<open>Reading a byte array declaration back, as a compiler of the output does: after
  \<open>static constexpr uint8 k<name>[] = { \<close> come decimal numbers below 256, each followed
  by a comma and a space, until \<open>};\<close> and the end of the line.\<close>

definition is_digit :: "char \<Rightarrow> bool" where
  "is_digit c = (48 \<le> (of_char c :: nat) \<and> (of_char c :: nat) \<le> 57)"

definition digits_value :: "string \<Rightarrow> nat" where
  "digits_value ds = foldl (\<lambda>n c. 10 * n + (of_char c - 48)) 0 ds"

function decode_items :: "string \<Rightarrow> string option" where
  "decode_items s =
     (if s = ''};'' @ [CHR 0x0A] then Some []
      else
        let ds = takeWhile is_digit s; rest = dropWhile is_digit s
        in if ds = [] \<or> 256 \<le> digits_value ds then None
           else (case rest of
                   c1 # c2 # r \<Rightarrow>
                     if c1 = CHR '','' \<and> c2 = CHR '' ''
                     then map_option (\<lambda>bytes. char_of (digits_value ds) # bytes) (decode_items r)
                     else None
                 | _ \<Rightarrow> None))"
  by pat_completeness auto
termination
proof (relation "measure length")
  show "wf (measure length)" by simp
next
  fix s ds rest :: string and c1 c2 :: char and r x23 :: string
  assume "rest = dropWhile is_digit s" and "rest = c1 # x23" and "x23 = c2 # r"
  then have "dropWhile is_digit s = c1 # c2 # r" by simp
  then have "length (dropWhile is_digit s) = Suc (Suc (length r))" by simp
  moreover have "length (dropWhile is_digit s) \<le> length s" by (rule length_dropWhile_le)
  ultimately show "(r, s) \<in> measure length" by simp
qed

declare decode_items.simps [simp del]

definition decode_array :: "string \<Rightarrow> string \<Rightarrow> string option" where
  "decode_array name text =
     (let prefix = ''static constexpr uint8 k'' @ name @ ''[] = { ''
      in if take (length prefix) text = prefix
         then decode_items (drop (length prefix) text) else None)"

text \<open>The text that the first loop writes for one entry whose stream opens: the byte array
  declaration, then the path declaration (line 134). \<open>content\<close> is what the stream of the
  entry holds.\<close>

definition content :: "entry \<Rightarrow> string" where
  "content binary_file = (case opener binary_file of Inl e \<Rightarrow> [] | Inr f \<Rightarrow> f)"

definition array_decl :: "entry \<Rightarrow> string" where
  "array_decl binary_file = write_array [] (GetName binary_file) (content binary_file)"

definition path_decl :: "entry \<Rightarrow> string" where
  "path_decl binary_file =
     ''static constexpr char k'' @ GetName binary_file @ ''_path[] = '' @ [CHR 0x22]
     @ path binary_file @ [CHR 0x22] @ '';'' @ [CHR 0x0A]"

text \<open>The whole output for a list of entries: the declarations of each entry in the order
  of the list, the header of the table, one record for each entry in the same order, and
  the closing line.\<close>

definition rendered :: "entry list \<Rightarrow> string" where
  "rendered binary_files =
     concat (map (\<lambda>b. array_decl b @ path_decl b) binary_files)
     @ table_header
     @ concat (map (write_record []) binary_files)
     @ ''};'' @ [CHR 0x0A]"

subsection \<open>A file system for the concrete runs\<close>

text \<open>A directory \<open>/tmp/in\<close> with \<open>a/b/One.class\<close>, \<open>a/b/file.txt\<close>, \<open>a/b/c.txt\<close> and
  \<open>x/a/b\<close>; a directory \<open>colon\<close> with the files \<open>a\<close> and \<open>a:b\<close>; a directory \<open>locked\<close>
  that cannot be listed; the archive \<open>/tmp/file.jar\<close>; a text file \<open>notes.txt\<close>; and
  nothing else. Only \<open>out.inl\<close> can be written.\<close>

definition example_fs :: filesystem where
  "example_fs =
     \<lparr> node = (\<lambda>p.
         if p = ''/tmp/in'' then
           Directory (Listing []
             [(''a'', Listing []
                [(''b'', Listing [(''One.class'', Some ''GIH''), (''file.txt'', Some ''text''),
                                  (''c.txt'', Some [])] [])]),
              (''x'', Listing [] [(''a'', Listing [(''b'', Some ''b'')] [])])])
         else if p = ''colon'' then Directory (Listing [(''a'', Some ''1''), (''a:b'', Some ''2'')] [])
         else if p = ''locked'' then Directory Unlistable
         else if p = ''/tmp/file.jar'' then
           Zip [(''a/b/c/One.class'', ''GIH''), (''home/Two.class'', ''ABC''),
                (''a/b/c/MyFile.bin'', ''DEFXYZ''), (''a/b/c/file.txt'', ''t'')]
         else if p = ''notes.txt'' then NotZip
         else Missing),
       writable = (\<lambda>p. p = ''out.inl'') \<rparr>"

section \<open>Properties\<close>

subsection \<open>Path segments and identifiers\<close>

lemma rfind_absent: "c \<notin> set s \<Longrightarrow> rfind s c = - 1"
  by (simp add: rfind_def)

lemma rfind_last: "c \<notin> set ys \<Longrightarrow> rfind (xs @ c # ys) c = int (length xs)"
proof -
  assume a: "c \<notin> set ys"
  have "takeWhile (\<lambda>d. d \<noteq> c) (rev ys @ c # rev xs) = rev ys"
    using a by (auto simp: takeWhile_append2 takeWhile_tail)
  then show ?thesis by (simp add: rfind_def)
qed

lemma rfind_decompose:
  "c \<in> set s \<Longrightarrow> \<exists>xs ys. s = xs @ c # ys \<and> c \<notin> set ys \<and> rfind s c = int (length xs)"
proof -
  assume "c \<in> set s"
  then obtain xs ys where "s = xs @ c # ys" "c \<notin> set ys"
    by (meson split_list_last)
  then show ?thesis using rfind_last by blast
qed

lemma basename_no_sep: "CHR ''/'' \<notin> set seg \<Longrightarrow> basename seg = seg"
  by (simp add: basename_def rfind_absent)

lemma basename_last_segment:
  "CHR ''/'' \<notin> set seg \<Longrightarrow> basename (d @ CHR ''/'' # seg) = seg"
  by (simp add: basename_def rfind_last nat_add_distrib)

lemma basename_split:
  "\<exists>pre. p = pre @ basename p \<and> CHR ''/'' \<notin> set (basename p)
     \<and> rfind p CHR ''/'' = int (length pre) - 1"
proof (cases "CHR ''/'' \<in> set p")
  case True
  then obtain xs ys where "p = xs @ CHR ''/'' # ys" "CHR ''/'' \<notin> set ys"
      "rfind p CHR ''/'' = int (length xs)"
    using rfind_decompose by blast
  then show ?thesis
    by (intro exI[of _ "xs @ ''/''"]) (simp add: basename_last_segment)
next
  case False
  then show ?thesis by (intro exI[of _ "[]"]) (simp add: basename_no_sep rfind_absent)
qed

text \<open>C6: the generated identifier is the final path segment, the text after the last
  \<open>/\<close> (the whole path when it has none), with every \<open>.\<close> and \<open>$\<close> replaced by
  \<open>_\<close> and every other character kept.\<close>

theorem GetName_final_segment:
  assumes "path item = seg \<or> path item = d @ ''/'' @ seg" and "CHR ''/'' \<notin> set seg"
  shows "GetName item = map (\<lambda>c. if c = CHR ''.'' \<or> c = CHR ''$'' then CHR ''_'' else c) seg"
proof -
  have "basename (path item) = seg"
    using assms basename_no_sep basename_last_segment by auto
  then show ?thesis by (simp add: GetName_def str_replace_def)
qed

theorem GetName_final_segment_witness:
  "GetName \<lparr> path = ''a/b/My.File$1.class'', opener = Inr [] \<rparr> = ''My_File_1_class''"
  using GetName_final_segment [of "\<lparr> path = ''a/b/My.File$1.class'', opener = Inr [] \<rparr>" "''My.File$1.class''" "''a/b''"]
  by simp

subsection \<open>The extension\<close>

lemma splitext_loop_eq:
  "splitext_loop p dotIndex filenameIndex =
     (if \<exists>k. filenameIndex \<le> k \<and> k < dotIndex \<and> p ! nat k \<noteq> CHR ''.''
      then (take (nat dotIndex) p, drop (nat dotIndex) p) else (p, []))"
proof (induction p dotIndex filenameIndex rule: splitext_loop.induct)
  case (1 p dotIndex filenameIndex)
  show ?case
  proof (cases "filenameIndex < dotIndex")
    case False
    then show ?thesis by (subst splitext_loop.simps) auto
  next
    case True
    show ?thesis
    proof (cases "p ! nat filenameIndex \<noteq> CHR ''.''")
      case nd: True
      with True have "\<exists>k. filenameIndex \<le> k \<and> k < dotIndex \<and> p ! nat k \<noteq> CHR ''.''"
        by (intro exI[of _ filenameIndex]) simp
      with True nd show ?thesis by (subst splitext_loop.simps) simp
    next
      case d: False
      have "(\<exists>k. filenameIndex \<le> k \<and> k < dotIndex \<and> p ! nat k \<noteq> CHR ''.'')
            = (\<exists>k. filenameIndex + 1 \<le> k \<and> k < dotIndex \<and> p ! nat k \<noteq> CHR ''.'')"
      proof
        assume "\<exists>k. filenameIndex \<le> k \<and> k < dotIndex \<and> p ! nat k \<noteq> CHR ''.''"
        then obtain k where k: "filenameIndex \<le> k" "k < dotIndex" "p ! nat k \<noteq> CHR ''.''" by blast
        with d have "k \<noteq> filenameIndex" by auto
        with k show "\<exists>k. filenameIndex + 1 \<le> k \<and> k < dotIndex \<and> p ! nat k \<noteq> CHR ''.''"
          by (intro exI[of _ k]) simp
      next
        assume "\<exists>k. filenameIndex + 1 \<le> k \<and> k < dotIndex \<and> p ! nat k \<noteq> CHR ''.''"
        then show "\<exists>k. filenameIndex \<le> k \<and> k < dotIndex \<and> p ! nat k \<noteq> CHR ''.''"
          by (meson add_le_imp_le_right le_add_same_cancel1 order_trans zero_le_one zle_add1_eq_le less_le_not_le)
      qed
      with True d "1.IH" show ?thesis by (subst splitext_loop.simps) simp
    qed
  qed
qed


lemma rfind_append_absent:
  assumes "c \<notin> set ys"
  shows "rfind (xs @ ys) c = rfind xs c"
proof -
  have "takeWhile (\<lambda>d. d \<noteq> c) (rev ys @ rev xs) = rev ys @ takeWhile (\<lambda>d. d \<noteq> c) (rev xs)"
    using assms by (intro takeWhile_append2) auto
  then show ?thesis using assms by (simp add: rfind_def)
qed

lemma rfind_less: "rfind s c < int (length s)"
  by (simp add: rfind_def)

lemma splitext_no_dot:
  assumes "CHR ''.'' \<notin> set (basename p)"
  shows "splitext p = (p, [])"
proof -
  obtain pre where pre: "p = pre @ basename p" "rfind p CHR ''/'' = int (length pre) - 1"
    using basename_split by blast
  have "rfind p CHR ''.'' = rfind pre CHR ''.''"
    using rfind_append_absent [OF assms, of pre] pre(1) by simp
  then have "rfind p CHR ''.'' \<le> rfind p CHR ''/''"
    using rfind_less [of pre "CHR ''.''"] pre(2) by simp
  then show ?thesis by (simp add: splitext_def Let_def)
qed

lemma splitext_last_dot:
  assumes "basename p = stem @ CHR ''.'' # e" and "CHR ''.'' \<notin> set e"
  shows "splitext p =
     (if \<exists>c\<in>set stem. c \<noteq> CHR ''.'' then (take (length p - Suc (length e)) p, CHR ''.'' # e)
      else (p, []))"
proof -
  obtain pre where pre: "p = pre @ basename p" "rfind p CHR ''/'' = int (length pre) - 1"
    using basename_split by blast
  have p: "p = (pre @ stem) @ CHR ''.'' # e" using pre(1) assms(1) by simp
  have dot: "rfind p CHR ''.'' = int (length pre + length stem)"
    using rfind_last [OF assms(2), of "pre @ stem"] p by simp
  have ex: "(\<exists>k. int (length pre) \<le> k \<and> k < int (length pre + length stem) \<and> p ! nat k \<noteq> CHR ''.'')
            = (\<exists>c\<in>set stem. c \<noteq> CHR ''.'')"
  proof
    assume "\<exists>k. int (length pre) \<le> k \<and> k < int (length pre + length stem) \<and> p ! nat k \<noteq> CHR ''.''"
    then obtain k where k: "int (length pre) \<le> k" "k < int (length pre + length stem)"
        "p ! nat k \<noteq> CHR ''.''" by blast
    define i where "i = nat k - length pre"
    have "i < length stem" "nat k = length pre + i" using k by (auto simp: i_def)
    then have "p ! nat k = stem ! i" using p by (simp add: nth_append)
    with k \<open>i < length stem\<close> show "\<exists>c\<in>set stem. c \<noteq> CHR ''.''"
      by (metis nth_mem)
  next
    assume "\<exists>c\<in>set stem. c \<noteq> CHR ''.''"
    then obtain i where i: "i < length stem" "stem ! i \<noteq> CHR ''.''"
      by (metis in_set_conv_nth)
    have "p ! (length pre + i) = stem ! i" using p i by (simp add: nth_append)
    with i show "\<exists>k. int (length pre) \<le> k \<and> k < int (length pre + length stem) \<and> p ! nat k \<noteq> CHR ''.''"
      by (intro exI[of _ "int (length pre + i)"]) (simp add: nat_add_distrib)
  qed
  have len: "length pre + length stem = length p - Suc (length e)" using p by simp
  have drop: "drop (length pre + length stem) p = CHR ''.'' # e" using p by simp
  have "splitext p = splitext_loop p (int (length pre + length stem)) (int (length pre))"
    using dot pre(2) by (simp add: splitext_def Let_def)
  also have "\<dots> = (if \<exists>c\<in>set stem. c \<noteq> CHR ''.''
      then (take (length pre + length stem) p, drop (length pre + length stem) p) else (p, []))"
    using ex by (simp add: splitext_loop_eq del: of_nat_add)
  finally show ?thesis using len drop by simp
qed


text \<open>What the body of the second loop writes for an entry.\<close>

lemma write_record_text:
  "write_record cc_file binary_file
   = cc_file @ ''  {'' @ [CHR 0x0A]
     @ ''    k'' @ GetName binary_file @ ''_path,'' @ [CHR 0x0A]
     @ ''    '' @ [CHR 0x22] @ extension (path binary_file) @ [CHR 0x22] @ '','' @ [CHR 0x0A]
     @ ''    k'' @ GetName binary_file @ '','' @ [CHR 0x0A]
     @ ''    arraysize(k'' @ GetName binary_file @ '')'' @ [CHR 0x0A]
     @ ''  },'' @ [CHR 0x0A]"
  by (simp add: write_record_def Let_def file_write_def)

text \<open>C7: the record that the second loop writes for an entry has, as its second field,
  the extension of the entry's path between double quotes. That extension is empty when
  the final path segment has no dot; it is the text after the last dot of the final
  segment when something other than dots stands before that dot; and it is empty when
  only dots stand before it, which \<open>splitext\<close> does not count as an extension.\<close>

theorem extension_of_final_segment:
  "write_record cc_file binary_file
     = cc_file @ ''  {'' @ [CHR 0x0A]
       @ ''    k'' @ GetName binary_file @ ''_path,'' @ [CHR 0x0A]
       @ ''    '' @ [CHR 0x22] @ extension (path binary_file) @ [CHR 0x22] @ '','' @ [CHR 0x0A]
       @ ''    k'' @ GetName binary_file @ '','' @ [CHR 0x0A]
       @ ''    arraysize(k'' @ GetName binary_file @ '')'' @ [CHR 0x0A]
       @ ''  },'' @ [CHR 0x0A]
   \<and> (CHR ''.'' \<notin> set (basename p) \<longrightarrow> extension p = [])
   \<and> (basename p = stem @ ''.'' @ e \<and> CHR ''.'' \<notin> set e \<and> (\<exists>c\<in>set stem. c \<noteq> CHR ''.'')
        \<longrightarrow> extension p = e)
   \<and> (basename p = stem @ ''.'' @ e \<and> CHR ''.'' \<notin> set e \<and> (\<forall>c\<in>set stem. c = CHR ''.'')
        \<longrightarrow> extension p = [])"
proof -
  have "(CHR ''.'' \<notin> set (basename p) \<longrightarrow> extension p = [])
   \<and> (basename p = stem @ ''.'' @ e \<and> CHR ''.'' \<notin> set e \<and> (\<exists>c\<in>set stem. c \<noteq> CHR ''.'')
        \<longrightarrow> extension p = e)
   \<and> (basename p = stem @ ''.'' @ e \<and> CHR ''.'' \<notin> set e \<and> (\<forall>c\<in>set stem. c = CHR ''.'')
        \<longrightarrow> extension p = [])"
    using splitext_no_dot [of p] splitext_last_dot [of p stem e]
    by (auto simp: extension_def strip_leading_dot_def)
  then show ?thesis using write_record_text [of cc_file binary_file] by blast
qed

text \<open>The records written for \<open>a/b/file.bin\<close> and \<open>a/b/NoExt\<close>.\<close>

theorem extension_of_final_segment_witness:
  "write_record [] \<lparr>path = ''a/b/file.bin'', opener = Inr []\<rparr>
     = ''  {'' @ [CHR 0x0A]
       @ ''    kfile_bin_path,'' @ [CHR 0x0A]
       @ ''    '' @ [CHR 0x22] @ ''bin'' @ [CHR 0x22] @ '','' @ [CHR 0x0A]
       @ ''    kfile_bin,'' @ [CHR 0x0A]
       @ ''    arraysize(kfile_bin)'' @ [CHR 0x0A]
       @ ''  },'' @ [CHR 0x0A]
   \<and> write_record [] \<lparr>path = ''a/b/NoExt'', opener = Inr []\<rparr>
     = ''  {'' @ [CHR 0x0A]
       @ ''    kNoExt_path,'' @ [CHR 0x0A]
       @ ''    '' @ [CHR 0x22] @ [CHR 0x22] @ '','' @ [CHR 0x0A]
       @ ''    kNoExt,'' @ [CHR 0x0A]
       @ ''    arraysize(kNoExt)'' @ [CHR 0x0A]
       @ ''  },'' @ [CHR 0x0A]
   \<and> extension ''a/b/file.bin'' = ''bin'' \<and> extension ''a/b/NoExt'' = []
   \<and> extension ''a/.profile'' = []"
proof -
  have n: "GetName \<lparr>path = ''a/b/file.bin'', opener = Inr []\<rparr> = ''file_bin''"
      "GetName \<lparr>path = ''a/b/NoExt'', opener = Inr []\<rparr> = ''NoExt''"
    by (simp_all add: GetName_def basename_def rfind_def str_replace_def)
  have b: "basename ''a/b/file.bin'' = ''file'' @ ''.'' @ ''bin''"
      "basename ''a/b/NoExt'' = ''NoExt''" "basename ''a/.profile'' = [] @ ''.'' @ ''profile''"
    using basename_last_segment [of "''file.bin''" "''a/b''"]
      basename_last_segment [of "''NoExt''" "''a/b''"]
      basename_last_segment [of "''.profile''" "''a''"]
    by simp_all
  have e1: "extension ''a/b/file.bin'' = ''bin''"
    and r1: "write_record [] \<lparr>path = ''a/b/file.bin'', opener = Inr []\<rparr>
     = [] @ ''  {'' @ [CHR 0x0A]
       @ ''    k'' @ GetName \<lparr>path = ''a/b/file.bin'', opener = Inr []\<rparr> @ ''_path,'' @ [CHR 0x0A]
       @ ''    '' @ [CHR 0x22] @ extension (path \<lparr>path = ''a/b/file.bin'', opener = Inr []\<rparr>)
       @ [CHR 0x22] @ '','' @ [CHR 0x0A]
       @ ''    k'' @ GetName \<lparr>path = ''a/b/file.bin'', opener = Inr []\<rparr> @ '','' @ [CHR 0x0A]
       @ ''    arraysize(k'' @ GetName \<lparr>path = ''a/b/file.bin'', opener = Inr []\<rparr> @ '')''
       @ [CHR 0x0A] @ ''  },'' @ [CHR 0x0A]"
    using extension_of_final_segment
      [of "[]" "\<lparr>path = ''a/b/file.bin'', opener = Inr []\<rparr>" "''a/b/file.bin''" "''file''" "''bin''"] b(1)
    by simp_all
  have e2: "extension ''a/b/NoExt'' = []"
    and r2: "write_record [] \<lparr>path = ''a/b/NoExt'', opener = Inr []\<rparr>
     = [] @ ''  {'' @ [CHR 0x0A]
       @ ''    k'' @ GetName \<lparr>path = ''a/b/NoExt'', opener = Inr []\<rparr> @ ''_path,'' @ [CHR 0x0A]
       @ ''    '' @ [CHR 0x22] @ extension (path \<lparr>path = ''a/b/NoExt'', opener = Inr []\<rparr>)
       @ [CHR 0x22] @ '','' @ [CHR 0x0A]
       @ ''    k'' @ GetName \<lparr>path = ''a/b/NoExt'', opener = Inr []\<rparr> @ '','' @ [CHR 0x0A]
       @ ''    arraysize(k'' @ GetName \<lparr>path = ''a/b/NoExt'', opener = Inr []\<rparr> @ '')''
       @ [CHR 0x0A] @ ''  },'' @ [CHR 0x0A]"
    using extension_of_final_segment
      [of "[]" "\<lparr>path = ''a/b/NoExt'', opener = Inr []\<rparr>" "''a/b/NoExt''"] b(2)
    by simp_all
  have e3: "extension ''a/.profile'' = []"
    using extension_of_final_segment [of "[]" "\<lparr>path = [], opener = Inr []\<rparr>" "''a/.profile''" "[]" "''profile''"] b(3)
    by simp
  show ?thesis using e1 e2 e3 r1 r2 by (simp add: n)
qed

subsection \<open>Enumeration\<close>

lemma yield_filter:
  "concat (map (\<lambda>x. if P (g x) then [g x] else []) xs) = filter P (map g xs)"
  by (induction xs) auto

lemma yield_filter_files:
  "concat (map (\<lambda>(file_name, content).
      if P (relpath (join root file_name) entry)
      then [\<lparr> path = relpath (join root file_name) entry, opener = open_rb content \<rparr>] else [])
      files)
   = filter (\<lambda>e. P (path e))
       (map (\<lambda>(file_name, content).
          \<lparr> path = relpath (join root file_name) entry, opener = open_rb content \<rparr>) files)"
  by (induction files) auto

lemma yield_filter_walk:
  "concat (map (\<lambda>(root, unused_subdirs, files).
      concat (map (\<lambda>(file_name, content).
        if P (relpath (join root file_name) entry)
        then [\<lparr> path = relpath (join root file_name) entry, opener = open_rb content \<rparr>] else [])
        files)) w)
   = filter (\<lambda>e. P (path e))
       (concat (map (\<lambda>(root, unused_subdirs, files).
          map (\<lambda>(file_name, content).
            \<lparr> path = relpath (join root file_name) entry, opener = open_rb content \<rparr>) files) w))"
  by (induction w) (auto simp: yield_filter_files)

lemma yield_filter_names:
  "concat (map (\<lambda>entry. if P entry then [\<lparr> path = entry, opener = jar_open jar entry \<rparr>] else [])
      names)
   = filter (\<lambda>e. P (path e)) (map (\<lambda>name. \<lparr> path = name, opener = jar_open jar name \<rparr>) names)"
  by (induction names) auto

lemma enumerate_input_matched: "fst (enumerate_input re fs current_input) = matched re fs current_input"
proof (cases "str_split current_input CHR '':'' 2")
  case Nil
  then show ?thesis by (simp add: enumerate_input_def matched_def getitem_def)
next
  case (Cons entry more)
  show ?thesis
  proof (cases more)
    case Nil
    with Cons show ?thesis by (simp add: enumerate_input_def matched_def getitem_def)
  next
    case (Cons pat rest)
    with \<open>str_split current_input CHR '':'' 2 = entry # more\<close> show ?thesis
      by (auto simp: enumerate_input_def matched_def getitem_def scanned_def Let_def
            yield_filter_walk [of "Pattern_match re pattern" for pattern]
            yield_filter_names [of "Pattern_match re pattern" for pattern]
          split: option.splits sum.splits)
  qed
qed

lemma EnumerateInputs_first_failure:
  "snd (EnumerateInputs re fs pre) = None \<Longrightarrow> enumerate_input re fs current_input = (ys, Some e)
   \<Longrightarrow> EnumerateInputs re fs (pre @ current_input # rest)
       = (fst (EnumerateInputs re fs pre) @ ys, Some e)"
  by (induction pre) (auto split: prod.splits option.splits)

lemma EnumerateInputs_matched:
  "snd (EnumerateInputs re fs inputs) = None
   \<Longrightarrow> fst (EnumerateInputs re fs inputs) = concat (map (matched re fs) inputs)"
proof (induction inputs)
  case Nil
  then show ?case by simp
next
  case (Cons a inputs)
  then show ?case
    using enumerate_input_matched [of re fs a]
    by (auto split: prod.splits option.splits)
qed

lemma Generate_raises:
  "writable fs cc_file_path \<Longrightarrow> snd (EnumerateInputs re fs inputs) = Some e
   \<Longrightarrow> Generate re fs cc_file_path inputs = Inl e"
  by (cases "EnumerateInputs re fs inputs") (simp add: Generate_def sorted_by_path_def)

subsection \<open>Arguments, patterns and sources\<close>

lemma list_ex_upto: "list_ex P [0..<Suc n] = (\<exists>j\<le>n. P j)"
  by (auto simp del: upt_Suc simp: list_ex_iff less_Suc_eq_le)

text \<open>C3: for an argument \<open>location:pattern\<close> whose pattern compiles, the entries
  yielded are exactly the scanned entries of the location whose path has a match that
  starts at position 0 and ends at some position \<open>j\<close>, which need not be the end of the
  path.\<close>

theorem enumerate_input_prefix_match:
  assumes "str_split current_input CHR '':'' 2 = entry # pat # rest"
    and "re_compile re pat = Some pattern"
  shows "fst (enumerate_input re fs current_input)
         = filter (\<lambda>e. \<exists>j\<le>length (path e). re_span re pattern (path e) 0 j) (scanned fs entry)"
  using assms enumerate_input_matched [of re fs current_input]
  by (simp add: matched_def Pattern_match_def list_ex_upto del: upt_Suc)

lemma example_scanned:
  "scanned example_fs ''/tmp/in'' =
     [\<lparr>path = ''a/b/One.class'', opener = Inr ''GIH''\<rparr>,
      \<lparr>path = ''a/b/file.txt'', opener = Inr ''text''\<rparr>,
      \<lparr>path = ''a/b/c.txt'', opener = Inr []\<rparr>,
      \<lparr>path = ''x/a/b'', opener = Inr ''b''\<rparr>]"
  by (simp add: scanned_def isdir_def os_walk_def example_fs_def join_def relpath_def open_rb_def)

lemma example_compile:
  "re_compile py_re ''^a/b'' = Some (Seq Bol (Seq (Lit CHR ''a'') (Seq (Lit CHR ''/'') (Lit CHR ''b''))))"
  by (simp add: py_re_def close_frame_def)

text \<open>With \<open>^a/b\<close> on \<open>/tmp/in\<close>: \<open>a/b/c.txt\<close> is yielded, \<open>x/a/b\<close> is not.\<close>

theorem enumerate_input_prefix_match_witness:
  "fst (enumerate_input py_re example_fs ''/tmp/in:^a/b'')
   = [\<lparr>path = ''a/b/One.class'', opener = Inr ''GIH''\<rparr>,
      \<lparr>path = ''a/b/file.txt'', opener = Inr ''text''\<rparr>,
      \<lparr>path = ''a/b/c.txt'', opener = Inr []\<rparr>]"
proof -
  have sp: "str_split ''/tmp/in:^a/b'' CHR '':'' 2 = [''/tmp/in'', ''^a/b'']"
    by (simp add: numeral_2_eq_2)
  have sel: "filter (\<lambda>e. \<exists>j\<le>length (path e).
               re_span py_re (Seq Bol (Seq (Lit CHR ''a'') (Seq (Lit CHR ''/'') (Lit CHR ''b''))))
                 (path e) 0 j) (scanned example_fs ''/tmp/in'')
        = [\<lparr>path = ''a/b/One.class'', opener = Inr ''GIH''\<rparr>,
           \<lparr>path = ''a/b/file.txt'', opener = Inr ''text''\<rparr>,
           \<lparr>path = ''a/b/c.txt'', opener = Inr []\<rparr>]"
    unfolding example_scanned by (simp add: py_re_def)
  show ?thesis
    using enumerate_input_prefix_match [OF sp example_compile, of example_fs] sel by simp
qed


lemmas example_eval =
  enumerate_input_def getitem_def numeral_2_eq_2 py_re_def close_frame_def quantify_def alnum_def
  Pattern_match_def isdir_def os_walk_def example_fs_def join_def relpath_def open_rb_def
  ZipFile_def namelist_def jar_open_def Let_def

lemma str_split_no_sep: "sep \<notin> set s \<Longrightarrow> str_split s sep n = [s]"
  by (cases n) simp_all

lemma str_split_first:
  "sep \<notin> set loc \<Longrightarrow> str_split (loc @ sep # rest) sep (Suc n) = loc # str_split rest sep n"
proof -
  assume a: "sep \<notin> set loc"
  have "takeWhile (\<lambda>c. c \<noteq> sep) (loc @ sep # rest) = loc"
    using a by (induction loc) auto
  moreover have "dropWhile (\<lambda>c. c \<noteq> sep) (loc @ sep # rest) = sep # rest"
    using a by (induction loc) auto
  ultimately show ?thesis by simp
qed

text \<open>In general, the second component ends at the second colon.\<close>

lemma str_split_second:
  "sep \<notin> set loc \<Longrightarrow>
   getitem (str_split (loc @ sep # pat) sep 2) 1 = Inr (takeWhile (\<lambda>c. c \<noteq> sep) pat)"
proof -
  assume a: "sep \<notin> set loc"
  have "str_split (loc @ sep # pat) sep 2 = loc # str_split pat sep (Suc 0)"
    using str_split_first [OF a] by (simp add: numeral_2_eq_2 del: str_split.simps)
  moreover have "\<exists>more. str_split pat sep (Suc 0) = takeWhile (\<lambda>c. c \<noteq> sep) pat # more"
  proof (cases "sep \<in> set pat")
    case True
    then show ?thesis by simp
  next
    case False
    then have tw: "takeWhile (\<lambda>c. c \<noteq> sep) pat = pat" by (induction pat) auto
    have "str_split pat sep (Suc 0) = [pat]" using False by simp
    then show ?thesis unfolding tw by simp
  qed
  ultimately show ?thesis by (auto simp: getitem_def)
qed

text \<open>C10: an argument without a colon makes \<open>components[1]\<close> raise \<open>IndexError\<close> in
  the loop body. When the arguments before it were enumerated without an exception, the
  generator, \<open>Generate\<close> and \<open>main\<close> end with that \<open>IndexError\<close>: \<open>main\<close> checks only the
  number of arguments and the help flags.\<close>

theorem no_colon_raises_IndexError:
  assumes "CHR '':'' \<notin> set current_input"
    and "snd (EnumerateInputs re fs pre) = None"
    and "writable fs cc_file_path"
    and "cc_file_path \<notin> set [''-?'', ''--?'', ''-h'', ''--help'']"
  shows "enumerate_input re fs current_input = ([], Some IndexError)
       \<and> EnumerateInputs re fs (pre @ current_input # rest)
           = (fst (EnumerateInputs re fs pre), Some IndexError)
       \<and> Generate re fs cc_file_path (pre @ current_input # rest) = Inl IndexError
       \<and> main re fs (prog # cc_file_path # pre @ current_input # rest) = Raised IndexError"
proof -
  have one: "enumerate_input re fs current_input = ([], Some IndexError)"
    using assms(1) by (simp add: enumerate_input_def str_split_no_sep getitem_def)
  have all: "EnumerateInputs re fs (pre @ current_input # rest)
           = (fst (EnumerateInputs re fs pre), Some IndexError)"
    using EnumerateInputs_first_failure [OF assms(2) one] by simp
  have gen: "Generate re fs cc_file_path (pre @ current_input # rest) = Inl IndexError"
    by (rule Generate_raises [OF assms(3)]) (simp add: all)
  have "main re fs (prog # cc_file_path # pre @ current_input # rest) = Raised IndexError"
    using gen assms(4) by (simp add: main_def)
  with one all gen show ?thesis by simp
qed

lemma example_pre: "EnumerateInputs py_re example_fs [''/tmp/in:x''] = ([\<lparr>path = ''x/a/b'', opener = Inr ''b''\<rparr>], None)"
  by (simp add: example_eval)

theorem no_colon_raises_IndexError_witness:
  "enumerate_input py_re example_fs ''/tmp/in'' = ([], Some IndexError)
   \<and> EnumerateInputs py_re example_fs [''/tmp/in:x'', ''/tmp/in'', ''/tmp/in:y'']
       = ([\<lparr>path = ''x/a/b'', opener = Inr ''b''\<rparr>], Some IndexError)
   \<and> Generate py_re example_fs ''out.inl'' [''/tmp/in:x'', ''/tmp/in'', ''/tmp/in:y''] = Inl IndexError
   \<and> main py_re example_fs [''static_def_gen.py'', ''out.inl'', ''/tmp/in:x'', ''/tmp/in'', ''/tmp/in:y'']
       = Raised IndexError"
proof -
  have w: "writable example_fs ''out.inl''" by (simp add: example_fs_def)
  have p: "snd (EnumerateInputs py_re example_fs [''/tmp/in:x'']) = None"
    by (subst example_pre) simp
  show ?thesis
    using no_colon_raises_IndexError [of "''/tmp/in''" py_re example_fs "[''/tmp/in:x'']"
        "''out.inl''" "[''/tmp/in:y'']" "''static_def_gen.py''", OF _ p w]
    by (simp add: example_pre del: EnumerateInputs.simps)
qed

lemma str_split_nonempty: "str_split s sep n \<noteq> []"
  by (cases n) simp_all

text \<open>C8, amended: a pattern that does not compile raises \<open>re.error\<close> when its argument
  is reached. If the arguments before it were enumerated without an exception, their
  matched entries have all been yielded by then; nothing is yielded for the argument
  itself or for a later one, and \<open>Generate\<close> ends with \<open>re.error\<close>.\<close>

theorem invalid_pattern_raises_when_reached:
  assumes "snd (EnumerateInputs re fs pre) = None"
    and "getitem (str_split current_input CHR '':'' 2) 1 = Inr pat"
    and "re_compile re pat = None"
  shows "enumerate_input re fs current_input = ([], Some re_error)
       \<and> EnumerateInputs re fs (pre @ current_input # rest)
           = (concat (map (matched re fs) pre), Some re_error)
       \<and> (writable fs cc_file_path
            \<longrightarrow> Generate re fs cc_file_path (pre @ current_input # rest) = Inl re_error)"
proof -
  have one: "enumerate_input re fs current_input = ([], Some re_error)"
    using assms(2,3) str_split_nonempty [of current_input "CHR '':''" 2]
    by (auto simp: enumerate_input_def getitem_def split: if_splits)
  have all: "EnumerateInputs re fs (pre @ current_input # rest)
           = (concat (map (matched re fs) pre), Some re_error)"
    using EnumerateInputs_first_failure [OF assms(1) one] EnumerateInputs_matched [OF assms(1)]
    by simp
  show ?thesis using one all Generate_raises [of fs cc_file_path re] by simp
qed

theorem invalid_pattern_raises_when_reached_witness:
  "enumerate_input py_re example_fs ''/tmp/in:('' = ([], Some re_error)
   \<and> EnumerateInputs py_re example_fs [''/tmp/in:x'', ''/tmp/in:('', ''/tmp/in:y'']
       = ([\<lparr>path = ''x/a/b'', opener = Inr ''b''\<rparr>], Some re_error)
   \<and> Generate py_re example_fs ''out.inl'' [''/tmp/in:x'', ''/tmp/in:('', ''/tmp/in:y''] = Inl re_error"
proof -
  have w: "writable example_fs ''out.inl''" by (simp add: example_fs_def)
  have p: "snd (EnumerateInputs py_re example_fs [''/tmp/in:x'']) = None"
    by (subst example_pre) simp
  have g: "getitem (str_split ''/tmp/in:('' CHR '':'' 2) 1 = Inr ''(''"
    by (simp add: getitem_def numeral_2_eq_2)
  have c: "re_compile py_re ''('' = None" by (simp add: py_re_def)
  have m: "matched py_re example_fs ''/tmp/in:x'' = [\<lparr>path = ''x/a/b'', opener = Inr ''b''\<rparr>]"
    using enumerate_input_matched [of py_re example_fs "''/tmp/in:x''"] example_pre
    by (auto split: prod.splits option.splits)
  show ?thesis
    using invalid_pattern_raises_when_reached [OF p g c, of "[''/tmp/in:y'']" "''out.inl''"] w m
    by (simp del: EnumerateInputs.simps)
qed

text \<open>C8 as stated fails: with the invalid pattern \<open>(\<close> in the second argument, the
  entry of the first argument is yielded before the exception; and after a first
  argument that names no file, the run ends with \<open>IOError\<close>, not with \<open>re.error\<close>.\<close>

theorem invalid_pattern_not_first_counterexample:
  "re_compile py_re ''('' = None
   \<and> EnumerateInputs py_re example_fs [''/tmp/in:x'', ''/tmp/in:('']
       = ([\<lparr>path = ''x/a/b'', opener = Inr ''b''\<rparr>], Some re_error)
   \<and> EnumerateInputs py_re example_fs [''missing:x'', ''/tmp/in:(''] = ([], Some IOError)"
  by (simp add: example_eval)


text \<open>C9, amended: for an argument \<open>location:pattern\<close> whose pattern compiles, a
  location that does not exist, or that is not a directory and cannot be opened, raises
  \<open>IOError\<close>; a file that is not a zip archive raises \<open>BadZipfile\<close>; a directory that
  cannot be listed raises nothing and yields nothing.\<close>

theorem source_open_errors:
  assumes "str_split current_input CHR '':'' 2 = entry # pat # rest"
    and "re_compile re pat = Some pattern"
  shows "(node fs entry = Missing \<longrightarrow> enumerate_input re fs current_input = ([], Some IOError))
       \<and> (node fs entry = Unreadable \<longrightarrow> enumerate_input re fs current_input = ([], Some IOError))
       \<and> (node fs entry = NotZip \<longrightarrow> enumerate_input re fs current_input = ([], Some BadZipfile))
       \<and> (node fs entry = Directory Unlistable \<longrightarrow> enumerate_input re fs current_input = ([], None))"
  using assms
  by (simp add: enumerate_input_def getitem_def isdir_def ZipFile_def os_walk_def)

theorem source_open_errors_witness:
  "enumerate_input py_re example_fs ''missing:x'' = ([], Some IOError)
   \<and> enumerate_input py_re example_fs ''notes.txt:x'' = ([], Some BadZipfile)
   \<and> enumerate_input py_re example_fs ''locked:x'' = ([], None)"
proof -
  have c: "re_compile py_re ''x'' = Some (Lit CHR ''x'')" by (simp add: py_re_def close_frame_def)
  have s1: "str_split ''missing:x'' CHR '':'' 2 = [''missing'', ''x'']" by (simp add: numeral_2_eq_2)
  have s2: "str_split ''notes.txt:x'' CHR '':'' 2 = [''notes.txt'', ''x'']" by (simp add: numeral_2_eq_2)
  have s3: "str_split ''locked:x'' CHR '':'' 2 = [''locked'', ''x'']" by (simp add: numeral_2_eq_2)
  show ?thesis
    using source_open_errors [OF s1 c, of example_fs] source_open_errors [OF s2 c, of example_fs]
      source_open_errors [OF s3 c, of example_fs]
    by (simp add: example_fs_def)
qed

text \<open>C9 as stated fails: the directory \<open>locked\<close> cannot be listed, and its enumeration
  ends without an exception; with an invalid pattern the missing location \<open>missing\<close>
  raises \<open>re.error\<close>; without a colon the text file \<open>notes.txt\<close> raises \<open>IndexError\<close>.\<close>

theorem source_open_errors_counterexample:
  "node example_fs ''locked'' = Directory Unlistable
   \<and> EnumerateInputs py_re example_fs [''locked:x''] = ([], None)
   \<and> node example_fs ''missing'' = Missing
   \<and> EnumerateInputs py_re example_fs [''missing:(''] = ([], Some re_error)
   \<and> node example_fs ''notes.txt'' = NotZip
   \<and> EnumerateInputs py_re example_fs [''notes.txt''] = ([], Some IndexError)"
  by (simp add: example_eval)

text \<open>C4: \<open>split(':', 2)\<close> splits at the first two colons, so the pattern taken from
  \<open>colon:a:b\<close> is \<open>a\<close>, not \<open>a:b\<close>. The pattern \<open>a:b\<close> selects only the file \<open>a:b\<close> of
  the directory \<open>colon\<close>; the script yields \<open>a\<close> as well.\<close>

theorem split_at_second_colon:
  "getitem (str_split ''colon:a:b'' CHR '':'' 2) 1 = Inr ''a''
   \<and> re_compile py_re ''a:b'' = Some (Seq (Lit CHR ''a'') (Seq (Lit CHR '':'') (Lit CHR ''b'')))
   \<and> map path (filter (\<lambda>e. Pattern_match py_re (Seq (Lit CHR ''a'') (Seq (Lit CHR '':'') (Lit CHR ''b'')))
                          (path e)) (scanned example_fs ''colon'')) = [''a:b'']
   \<and> map path (fst (enumerate_input py_re example_fs ''colon:a:b'')) = [''a'', ''a:b'']"
  by (simp add: example_eval scanned_def)

text \<open>\<open>match\<close> is neither \<open>fullmatch\<close> nor \<open>search\<close>.\<close>

lemma match_not_fullmatch_not_search:
  "Pattern_match py_re (Seq Bol (Seq (Lit CHR ''a'') (Seq (Lit CHR ''/'') (Lit CHR ''b'')))) ''a/b/c.txt''
   \<and> \<not> Pattern_fullmatch py_re (Seq Bol (Seq (Lit CHR ''a'') (Seq (Lit CHR ''/'') (Lit CHR ''b'')))) ''a/b/c.txt''
   \<and> \<not> Pattern_match py_re (Seq (Lit CHR ''a'') (Seq (Lit CHR ''/'') (Lit CHR ''b''))) ''x/a/b''
   \<and> Pattern_search py_re (Seq (Lit CHR ''a'') (Seq (Lit CHR ''/'') (Lit CHR ''b''))) ''x/a/b''"
  by (simp add: Pattern_match_def Pattern_fullmatch_def Pattern_search_def py_re_def)

subsection \<open>Rendering\<close>

lemma read_loop_eq: "read_loop (take 1 g) (drop 1 g) cc_file = cc_file @ array_items g"
proof (induction g arbitrary: cc_file)
  case Nil
  then show ?case by (simp add: read_loop.simps array_items_def)
next
  case (Cons b g)
  have "read_loop (take 1 (b # g)) (drop 1 (b # g)) cc_file
        = read_loop (take 1 g) (drop 1 g) (cc_file @ str (ord b) @ '', '')"
    by (subst read_loop.simps) (simp add: file_write_def)
  then show ?case using Cons.IH by (simp add: array_items_def)
qed

lemma write_array_eq:
  "write_array cc_file name f
   = cc_file @ ''static constexpr uint8 k'' @ name @ ''[] = { '' @ array_items f @ ''};'' @ [CHR 0x0A]"
  unfolding write_array_def Let_def file_write_def read_loop_eq by simp

lemma of_char_digit: "d < 10 \<Longrightarrow> (of_char (digit d) :: nat) = 48 + d"
  by (simp add: digit_def)

lemma is_digit_digit: "d < 10 \<Longrightarrow> is_digit (digit d)"
  by (simp add: is_digit_def of_char_digit)

lemma str_digits: "c \<in> set (str n) \<Longrightarrow> is_digit c"
proof (induction n rule: str.induct)
  case (1 n)
  then show ?case
    by (subst (asm) (2) str.simps) (auto simp: is_digit_digit split: if_splits)
qed

lemma str_nonempty: "str n \<noteq> []"
  by (subst str.simps) simp

lemma digits_value_snoc: "digits_value (ds @ [c]) = 10 * digits_value ds + (of_char c - 48)"
  by (simp add: digits_value_def)

lemma digits_value_str: "digits_value (str n) = n"
proof (induction n rule: str.induct)
  case (1 n)
  show ?case
  proof (cases "n < 10")
    case True
    then show ?thesis by (subst str.simps) (simp add: digits_value_def of_char_digit)
  next
    case False
    then have "digits_value (str n) = 10 * digits_value (str (n div 10)) + (of_char (digit (n mod 10)) - 48)"
      by (subst str.simps) (simp add: digits_value_snoc)
    with False "1.IH" show ?thesis by (simp add: of_char_digit)
  qed
qed

lemma ord_bound: "ord b \<le> 255"
proof -
  have "(of_char b :: nat) mod 256 < 256" by simp
  then have "(of_char b :: nat) < 256" by (simp only: of_char_mod_256)
  then show ?thesis unfolding ord_def by linarith
qed


lemma char_of_ord: "char_of (ord b) = b"
  by (simp add: ord_def)

lemma not_digit_comma: "\<not> is_digit CHR '',''" "\<not> is_digit CHR ''}''"
  by (simp_all add: is_digit_def)

lemma decode_items_array_items: "decode_items (array_items f @ ''};'' @ [CHR 0x0A]) = Some f"
proof (induction f)
  case Nil
  then show ?case by (subst decode_items.simps) (simp add: array_items_def)
next
  case (Cons b f)
  define r where "r = array_items f @ ''};'' @ [CHR 0x0A]"
  define s where "s = str (ord b) @ CHR '','' # CHR '' '' # r"
  have s: "array_items (b # f) @ ''};'' @ [CHR 0x0A] = s"
    by (simp add: array_items_def r_def s_def)
  have all: "\<And>c. c \<in> set (str (ord b)) \<Longrightarrow> is_digit c" by (rule str_digits)
  have tw: "takeWhile is_digit s = str (ord b)"
    unfolding s_def using all not_digit_comma by (simp add: takeWhile_append2 takeWhile_tail)
  have dw: "dropWhile is_digit s = CHR '','' # CHR '' '' # r"
    unfolding s_def using all not_digit_comma by (simp add: dropWhile_append2 dropWhile_append3)
  have "hd s \<in> set (str (ord b))" unfolding s_def using str_nonempty [of "ord b"] by simp
  then have "is_digit (hd s)" by (rule all)
  then have ne: "s \<noteq> ''};'' @ [CHR 0x0A]" using not_digit_comma(2) by auto
  have small: "\<not> 256 \<le> digits_value (str (ord b))"
    using ord_bound [of b] by (simp add: digits_value_str)
  have "decode_items s = map_option (\<lambda>bytes. char_of (digits_value (str (ord b))) # bytes) (decode_items r)"
    using ne small str_nonempty [of "ord b"]
    by (subst decode_items.simps) (simp add: tw dw Let_def)
  then show ?case using Cons.IH s by (simp add: r_def digits_value_str char_of_ord)
qed

lemma decode_array_write_array: "decode_array name (write_array [] name f) = Some f"
  by (simp add: decode_array_def write_array_eq Let_def decode_items_array_items [simplified])


lemma write_array_append: "write_array cc_file name f = cc_file @ write_array [] name f"
  by (simp add: write_array_eq)

lemma write_arrays_opened:
  "(\<And>b. b \<in> set binary_files \<Longrightarrow> \<exists>f. opener b = Inr f)
   \<Longrightarrow> write_arrays cc_file binary_files
       = Inr (cc_file @ concat (map (\<lambda>b. array_decl b @ path_decl b) binary_files))"
proof (induction binary_files arbitrary: cc_file)
  case Nil
  then show ?case by simp
next
  case (Cons b binary_files)
  obtain f where f: "opener b = Inr f" using Cons.prems by auto
  have "write_arrays cc_file (b # binary_files)
        = write_arrays (cc_file @ array_decl b @ path_decl b) binary_files"
    using f write_array_append [of cc_file "GetName b" f]
    by (simp add: Let_def file_write_def array_decl_def path_decl_def content_def)
  then show ?case using Cons by simp
qed

lemma write_arrays_Inr:
  "write_arrays cc_file binary_files = Inr out \<Longrightarrow> b \<in> set binary_files \<Longrightarrow> \<exists>f. opener b = Inr f"
  by (induction binary_files arbitrary: cc_file) (auto simp: Let_def split: sum.splits)

lemma write_record_append: "write_record cc_file b = cc_file @ write_record [] b"
  by (simp add: write_record_def Let_def file_write_def)

lemma write_table_eq:
  "write_table cc_file binary_files = cc_file @ concat (map (write_record []) binary_files)"
proof (induction binary_files arbitrary: cc_file)
  case Nil
  then show ?case by simp
next
  case (Cons b binary_files)
  then show ?case using write_record_append [of cc_file b] by simp
qed

text \<open>The text of the output file.\<close>

lemma Generate_rendered:
  assumes "sorted_by_path (EnumerateInputs re fs inputs) = Inr binary_files"
    and "Generate re fs cc_file_path inputs = Inr text"
  shows "text = rendered binary_files"
proof -
  obtain arrays where a: "write_arrays [] binary_files = Inr arrays"
    using assms by (auto simp: Generate_def split: if_splits sum.splits)
  then have "arrays = concat (map (\<lambda>b. array_decl b @ path_decl b) binary_files)"
    using write_arrays_opened [of binary_files "[]"] write_arrays_Inr [OF a] by simp
  then show ?thesis
    using assms a
    by (simp add: Generate_def Let_def file_write_def write_table_eq rendered_def table_header_def
        split: if_splits)
qed

lemma Generate_succeeds:
  assumes "writable fs cc_file_path"
    and "sorted_by_path (EnumerateInputs re fs inputs) = Inr binary_files"
    and "\<And>b. b \<in> set binary_files \<Longrightarrow> \<exists>f. opener b = Inr f"
  shows "Generate re fs cc_file_path inputs = Inr (rendered binary_files)"
  using assms(1,2) write_arrays_opened [of binary_files "[]", OF assms(3)]
  by (simp add: Generate_def Let_def file_write_def write_table_eq rendered_def table_header_def)

lemma digit_chars:
  "digit 0 = CHR ''0''" "digit (Suc 0) = CHR ''1''" "digit 2 = CHR ''2''" "digit 3 = CHR ''3''"
  "digit 4 = CHR ''4''" "digit 5 = CHR ''5''" "digit 6 = CHR ''6''" "digit 7 = CHR ''7''"
  "digit 8 = CHR ''8''" "digit 9 = CHR ''9''"
  by (simp_all add: digit_def char_of_def bit_0)

text \<open>C1: for an entry whose stream opens with the bytes \<open>f\<close>, the first loop writes the
  array declaration and the path declaration; the array declaration lists the bytes of
  \<open>f\<close> in order and to the end, each as a decimal number of at most 255 followed by a
  comma and a space, between \<open>{ \<close> and \<open>};\<close>; reading it back gives \<open>f\<close>. For an empty
  \<open>f\<close> nothing stands between \<open>{ \<close> and \<open>};\<close>.\<close>

theorem byte_array_round_trip:
  assumes "opener binary_file = Inr f"
  shows "write_arrays cc_file [binary_file]
           = Inr (cc_file @ array_decl binary_file @ path_decl binary_file)
       \<and> array_decl binary_file
           = ''static constexpr uint8 k'' @ GetName binary_file @ ''[] = { ''
             @ concat (map (\<lambda>b. str (ord b) @ '', '') f) @ ''};'' @ [CHR 0x0A]
       \<and> (\<forall>b\<in>set f. ord b \<le> 255)
       \<and> decode_array (GetName binary_file) (array_decl binary_file) = Some f"
proof -
  have c: "content binary_file = f" using assms by (simp add: content_def)
  have "write_arrays cc_file [binary_file]
           = Inr (cc_file @ array_decl binary_file @ path_decl binary_file)"
    using write_arrays_opened [of "[binary_file]" cc_file] assms by simp
  moreover have "array_decl binary_file
           = ''static constexpr uint8 k'' @ GetName binary_file @ ''[] = { ''
             @ concat (map (\<lambda>b. str (ord b) @ '', '') f) @ ''};'' @ [CHR 0x0A]"
    unfolding array_decl_def c write_array_eq array_items_def by simp
  moreover have "decode_array (GetName binary_file) (array_decl binary_file) = Some f"
    unfolding array_decl_def c by (rule decode_array_write_array)
  ultimately show ?thesis using ord_bound by blast
qed

text \<open>Streams of 0, 1 and 3 bytes.\<close>

theorem byte_array_round_trip_witness:
  "array_decl \<lparr>path = ''a/b/c.txt'', opener = Inr []\<rparr> = ''static constexpr uint8 kc_txt[] = { };'' @ [CHR 0x0A]
   \<and> decode_array ''c_txt'' (array_decl \<lparr>path = ''a/b/c.txt'', opener = Inr []\<rparr>) = Some []
   \<and> array_decl \<lparr>path = ''x/a/b'', opener = Inr ''b''\<rparr> = ''static constexpr uint8 kb[] = { 98, };'' @ [CHR 0x0A]
   \<and> decode_array ''b'' (array_decl \<lparr>path = ''x/a/b'', opener = Inr ''b''\<rparr>) = Some ''b''
   \<and> array_decl \<lparr>path = ''a/b/One.class'', opener = Inr ''GIH''\<rparr>
       = ''static constexpr uint8 kOne_class[] = { 71, 73, 72, };'' @ [CHR 0x0A]
   \<and> decode_array ''One_class'' (array_decl \<lparr>path = ''a/b/One.class'', opener = Inr ''GIH''\<rparr>) = Some ''GIH''"
proof -
  have n: "GetName \<lparr>path = ''a/b/c.txt'', opener = Inr []\<rparr> = ''c_txt''"
      "GetName \<lparr>path = ''x/a/b'', opener = Inr ''b''\<rparr> = ''b''"
      "GetName \<lparr>path = ''a/b/One.class'', opener = Inr ''GIH''\<rparr> = ''One_class''"
    by (simp_all add: GetName_def basename_def rfind_def str_replace_def)
  have e0: "array_decl \<lparr>path = ''a/b/c.txt'', opener = Inr []\<rparr>
              = ''static constexpr uint8 kc_txt[] = { };'' @ [CHR 0x0A]"
      "decode_array ''c_txt'' (array_decl \<lparr>path = ''a/b/c.txt'', opener = Inr []\<rparr>) = Some []"
    using byte_array_round_trip [of "\<lparr>path = ''a/b/c.txt'', opener = Inr []\<rparr>" "[]" "[]"]
    by (auto simp: n)
  have e1: "array_decl \<lparr>path = ''x/a/b'', opener = Inr ''b''\<rparr>
              = ''static constexpr uint8 kb[] = { 98, };'' @ [CHR 0x0A]"
      "decode_array ''b'' (array_decl \<lparr>path = ''x/a/b'', opener = Inr ''b''\<rparr>) = Some ''b''"
    using byte_array_round_trip [of "\<lparr>path = ''x/a/b'', opener = Inr ''b''\<rparr>" "''b''" "[]"]
    by (auto simp: n str.simps ord_def digit_chars)
  have e3: "array_decl \<lparr>path = ''a/b/One.class'', opener = Inr ''GIH''\<rparr>
              = ''static constexpr uint8 kOne_class[] = { 71, 73, 72, };'' @ [CHR 0x0A]"
      "decode_array ''One_class'' (array_decl \<lparr>path = ''a/b/One.class'', opener = Inr ''GIH''\<rparr>)
         = Some ''GIH''"
    using byte_array_round_trip
      [of "\<lparr>path = ''a/b/One.class'', opener = Inr ''GIH''\<rparr>" "''GIH''" "[]"]
    by (auto simp: n str.simps ord_def digit_chars)
  show ?thesis by (intro conjI e0 e1 e3)
qed


lemma sorted_by_path_Inr:
  "sorted_by_path (EnumerateInputs re fs inputs) = Inr binary_files
   \<Longrightarrow> snd (EnumerateInputs re fs inputs) = None
       \<and> binary_files = sort_key path (fst (EnumerateInputs re fs inputs))"
  by (cases "EnumerateInputs re fs inputs") (auto simp: sorted_by_path_def split: option.splits)

text \<open>C2, amended: the entries are written in ascending order of path, entries with the
  same path next to each other in the order of their enumeration; the order is strictly
  ascending exactly when no two enumerated entries have the same path.\<close>

theorem output_sorted_by_path:
  assumes "sorted_by_path (EnumerateInputs re fs inputs) = Inr binary_files"
  shows "sorted (map path binary_files)
       \<and> (sorted_wrt (<) (map path binary_files)
            \<longleftrightarrow> distinct (map path (fst (EnumerateInputs re fs inputs))))
       \<and> (\<forall>k. filter (\<lambda>e. path e = k) binary_files
                 = filter (\<lambda>e. path e = k) (fst (EnumerateInputs re fs inputs)))
       \<and> (\<forall>text. Generate re fs cc_file_path inputs = Inr text \<longrightarrow> text = rendered binary_files)"
proof -
  define ys where "ys = fst (EnumerateInputs re fs inputs)"
  have b: "binary_files = sort_key path ys"
    using sorted_by_path_Inr [OF assms] by (simp add: ys_def)
  have s: "sorted (map path binary_files)" unfolding b by (rule sorted_sort_key)
  have "mset (map path binary_files) = mset (map path ys)" unfolding b by simp
  then have d: "distinct (map path binary_files) = distinct (map path ys)"
    by (rule mset_eq_imp_distinct_iff)
  have st: "\<And>k. filter (\<lambda>e. path e = k) binary_files = filter (\<lambda>e. path e = k) ys"
    unfolding b by (rule sort_key_stable)
  show ?thesis
    using s d st Generate_rendered [OF assms]
    by (auto simp: strict_sorted_iff ys_def)
qed

lemma example_jar:
  "EnumerateInputs py_re example_fs [''/tmp/file.jar:^(a/b/c|home)/'']
   = ([\<lparr>path = ''a/b/c/One.class'', opener = Inr ''GIH''\<rparr>,
       \<lparr>path = ''home/Two.class'', opener = Inr ''ABC''\<rparr>,
       \<lparr>path = ''a/b/c/MyFile.bin'', opener = Inr ''DEFXYZ''\<rparr>,
       \<lparr>path = ''a/b/c/file.txt'', opener = Inr ''t''\<rparr>], None)"
  by (simp add: example_eval)

theorem output_sorted_by_path_witness:
  "sorted_by_path (EnumerateInputs py_re example_fs
       [''/tmp/file.jar:^(a/b/c|home)/''])
     = Inr [\<lparr>path = ''a/b/c/MyFile.bin'', opener = Inr ''DEFXYZ''\<rparr>,
            \<lparr>path = ''a/b/c/One.class'', opener = Inr ''GIH''\<rparr>,
            \<lparr>path = ''a/b/c/file.txt'', opener = Inr ''t''\<rparr>,
            \<lparr>path = ''home/Two.class'', opener = Inr ''ABC''\<rparr>]
   \<and> sorted [''a/b/c/MyFile.bin'', ''a/b/c/One.class'', ''a/b/c/file.txt'', ''home/Two.class'']
   \<and> sorted_wrt (<) [''a/b/c/MyFile.bin'', ''a/b/c/One.class'', ''a/b/c/file.txt'', ''home/Two.class'']"
proof -
  have h: "sorted_by_path (EnumerateInputs py_re example_fs
       [''/tmp/file.jar:^(a/b/c|home)/''])
     = Inr [\<lparr>path = ''a/b/c/MyFile.bin'', opener = Inr ''DEFXYZ''\<rparr>,
            \<lparr>path = ''a/b/c/One.class'', opener = Inr ''GIH''\<rparr>,
            \<lparr>path = ''a/b/c/file.txt'', opener = Inr ''t''\<rparr>,
            \<lparr>path = ''home/Two.class'', opener = Inr ''ABC''\<rparr>]"
    unfolding example_jar by (simp add: sorted_by_path_def less_eq_char_def less_char_def)
  show ?thesis
    using output_sorted_by_path [OF h, of "''out.inl''"] h
    by (simp add: example_jar del: EnumerateInputs.simps)
qed

lemma example_twice:
  "EnumerateInputs py_re example_fs [''/tmp/in:x'', ''/tmp/in:x/a'']
   = ([\<lparr>path = ''x/a/b'', opener = Inr ''b''\<rparr>, \<lparr>path = ''x/a/b'', opener = Inr ''b''\<rparr>], None)"
  by (simp add: example_eval)

text \<open>C2 as stated fails: two arguments that select the same file give two entries with
  the same path, and the run writes both.\<close>

theorem output_not_strictly_sorted_counterexample:
  "sorted_by_path (EnumerateInputs py_re example_fs [''/tmp/in:x'', ''/tmp/in:x/a''])
     = Inr [\<lparr>path = ''x/a/b'', opener = Inr ''b''\<rparr>, \<lparr>path = ''x/a/b'', opener = Inr ''b''\<rparr>]
   \<and> Generate py_re example_fs ''out.inl'' [''/tmp/in:x'', ''/tmp/in:x/a'']
     = Inr (rendered [\<lparr>path = ''x/a/b'', opener = Inr ''b''\<rparr>, \<lparr>path = ''x/a/b'', opener = Inr ''b''\<rparr>])
   \<and> \<not> sorted_wrt (<) [''x/a/b'', ''x/a/b'']"
proof -
  have h: "sorted_by_path (EnumerateInputs py_re example_fs [''/tmp/in:x'', ''/tmp/in:x/a''])
     = Inr [\<lparr>path = ''x/a/b'', opener = Inr ''b''\<rparr>, \<lparr>path = ''x/a/b'', opener = Inr ''b''\<rparr>]"
    unfolding example_twice by (simp add: sorted_by_path_def)
  have w: "writable example_fs ''out.inl''" by (simp add: example_fs_def)
  show ?thesis using h Generate_succeeds [OF w h] by simp
qed

text \<open>C5: when the enumeration ends without an exception, the sorted list holds the
  matched entries of every argument, each as often as it was matched, and its length is
  the sum over the arguments of the number of their matched entries. The run writes an
  output exactly when the output file opens and every entry's stream opens, and the
  output is then the declarations of the entries, the header of the table, one record
  for each element of the list in its order, and the closing line.\<close>

theorem one_record_per_match:
  assumes "sorted_by_path (EnumerateInputs re fs inputs) = Inr binary_files"
  shows "mset binary_files = mset (concat (map (matched re fs) inputs))
       \<and> length binary_files = sum_list (map (\<lambda>i. length (matched re fs i)) inputs)
       \<and> (\<forall>text. Generate re fs cc_file_path inputs = Inr text \<longleftrightarrow>
             writable fs cc_file_path \<and> (\<forall>b\<in>set binary_files. \<exists>f. opener b = Inr f)
             \<and> text =
                 concat (map (\<lambda>b. array_decl b @ path_decl b) binary_files)
                 @ [CHR 0x0A] @ ''static constexpr struct {'' @ [CHR 0x0A]
                 @ ''  const char* path;'' @ [CHR 0x0A]
                 @ ''  const char* extension;'' @ [CHR 0x0A]
                 @ ''  const uint8* data;'' @ [CHR 0x0A]
                 @ ''  int data_size;'' @ [CHR 0x0A]
                 @ ''} kBinaryFiles[] = {'' @ [CHR 0x0A]
                 @ concat (map (\<lambda>b.
                     ''  {'' @ [CHR 0x0A]
                     @ ''    k'' @ GetName b @ ''_path,'' @ [CHR 0x0A]
                     @ ''    '' @ [CHR 0x22] @ extension (path b) @ [CHR 0x22] @ '','' @ [CHR 0x0A]
                     @ ''    k'' @ GetName b @ '','' @ [CHR 0x0A]
                     @ ''    arraysize(k'' @ GetName b @ '')'' @ [CHR 0x0A]
                     @ ''  },'' @ [CHR 0x0A]) binary_files)
                 @ ''};'' @ [CHR 0x0A])"
proof -
  have n: "snd (EnumerateInputs re fs inputs) = None"
    and b: "binary_files = sort_key path (fst (EnumerateInputs re fs inputs))"
    using sorted_by_path_Inr [OF assms] by simp_all
  have m: "mset binary_files = mset (concat (map (matched re fs) inputs))"
    unfolding b using EnumerateInputs_matched [OF n] by simp
  have "length binary_files = length (concat (map (matched re fs) inputs))"
    using m by (rule mset_eq_length)
  then have l: "length binary_files = sum_list (map (\<lambda>i. length (matched re fs i)) inputs)"
    by (simp add: length_concat comp_def)
  have r: "rendered binary_files =
                 concat (map (\<lambda>b. array_decl b @ path_decl b) binary_files)
                 @ [CHR 0x0A] @ ''static constexpr struct {'' @ [CHR 0x0A]
                 @ ''  const char* path;'' @ [CHR 0x0A]
                 @ ''  const char* extension;'' @ [CHR 0x0A]
                 @ ''  const uint8* data;'' @ [CHR 0x0A]
                 @ ''  int data_size;'' @ [CHR 0x0A]
                 @ ''} kBinaryFiles[] = {'' @ [CHR 0x0A]
                 @ concat (map (\<lambda>b.
                     ''  {'' @ [CHR 0x0A]
                     @ ''    k'' @ GetName b @ ''_path,'' @ [CHR 0x0A]
                     @ ''    '' @ [CHR 0x22] @ extension (path b) @ [CHR 0x22] @ '','' @ [CHR 0x0A]
                     @ ''    k'' @ GetName b @ '','' @ [CHR 0x0A]
                     @ ''    arraysize(k'' @ GetName b @ '')'' @ [CHR 0x0A]
                     @ ''  },'' @ [CHR 0x0A]) binary_files)
                 @ ''};'' @ [CHR 0x0A]"
  proof -
    have "write_record [] = (\<lambda>b.
                     ''  {'' @ [CHR 0x0A]
                     @ ''    k'' @ GetName b @ ''_path,'' @ [CHR 0x0A]
                     @ ''    '' @ [CHR 0x22] @ extension (path b) @ [CHR 0x22] @ '','' @ [CHR 0x0A]
                     @ ''    k'' @ GetName b @ '','' @ [CHR 0x0A]
                     @ ''    arraysize(k'' @ GetName b @ '')'' @ [CHR 0x0A]
                     @ ''  },'' @ [CHR 0x0A])"
      by (rule ext) (simp add: write_record_text [of "[]"])
    then show ?thesis by (simp add: rendered_def table_header_def)
  qed
  have g: "Generate re fs cc_file_path inputs = Inr res \<longleftrightarrow>
             writable fs cc_file_path \<and> (\<forall>b\<in>set binary_files. \<exists>f. opener b = Inr f)
             \<and> res = rendered binary_files" for res
  proof
    assume t: "Generate re fs cc_file_path inputs = Inr res"
    then have w: "writable fs cc_file_path" by (auto simp: Generate_def split: if_splits)
    obtain arrays where a: "write_arrays [] binary_files = Inr arrays"
      using t assms by (auto simp: Generate_def split: if_splits sum.splits)
    show "writable fs cc_file_path \<and> (\<forall>b\<in>set binary_files. \<exists>f. opener b = Inr f)
             \<and> res = rendered binary_files"
      using w write_arrays_Inr [OF a] Generate_rendered [OF assms t] by blast
  next
    assume "writable fs cc_file_path \<and> (\<forall>b\<in>set binary_files. \<exists>f. opener b = Inr f)
             \<and> res = rendered binary_files"
    then show "Generate re fs cc_file_path inputs = Inr res"
      using Generate_succeeds [OF _ assms, of cc_file_path] by blast
  qed
  show ?thesis using m l g unfolding r by blast
qed

text \<open>Two arguments on the directory \<open>/tmp/in\<close>, which holds four files: each selects
  \<open>x/a/b\<close>, the list holds it twice, and the table of the output has two records.\<close>

theorem one_record_per_match_witness:
  "matched py_re example_fs ''/tmp/in:x'' = [\<lparr>path = ''x/a/b'', opener = Inr ''b''\<rparr>]
   \<and> matched py_re example_fs ''/tmp/in:x/a'' = [\<lparr>path = ''x/a/b'', opener = Inr ''b''\<rparr>]
   \<and> length (scanned example_fs ''/tmp/in'') = 4
   \<and> sorted_by_path (EnumerateInputs py_re example_fs [''/tmp/in:x'', ''/tmp/in:x/a''])
       = Inr [\<lparr>path = ''x/a/b'', opener = Inr ''b''\<rparr>, \<lparr>path = ''x/a/b'', opener = Inr ''b''\<rparr>]
   \<and> length [\<lparr>path = ''x/a/b'', opener = Inr ''b''\<rparr>, \<lparr>path = ''x/a/b'', opener = Inr ''b''\<rparr>]
       = sum_list (map (\<lambda>i. length (matched py_re example_fs i)) [''/tmp/in:x'', ''/tmp/in:x/a''])
   \<and> Generate py_re example_fs ''out.inl'' [''/tmp/in:x'', ''/tmp/in:x/a'']
       = Inr (''static constexpr uint8 kb[] = { 98, };'' @ [CHR 0x0A]
              @ ''static constexpr char kb_path[] = '' @ [CHR 0x22] @ ''x/a/b'' @ [CHR 0x22] @ '';'' @ [CHR 0x0A]
              @ ''static constexpr uint8 kb[] = { 98, };'' @ [CHR 0x0A]
              @ ''static constexpr char kb_path[] = '' @ [CHR 0x22] @ ''x/a/b'' @ [CHR 0x22] @ '';'' @ [CHR 0x0A]
              @ [CHR 0x0A] @ ''static constexpr struct {'' @ [CHR 0x0A]
              @ ''  const char* path;'' @ [CHR 0x0A]
              @ ''  const char* extension;'' @ [CHR 0x0A]
              @ ''  const uint8* data;'' @ [CHR 0x0A]
              @ ''  int data_size;'' @ [CHR 0x0A]
              @ ''} kBinaryFiles[] = {'' @ [CHR 0x0A]
              @ ''  {'' @ [CHR 0x0A]
              @ ''    kb_path,'' @ [CHR 0x0A]
              @ ''    '' @ [CHR 0x22] @ [CHR 0x22] @ '','' @ [CHR 0x0A]
              @ ''    kb,'' @ [CHR 0x0A]
              @ ''    arraysize(kb)'' @ [CHR 0x0A]
              @ ''  },'' @ [CHR 0x0A]
              @ ''  {'' @ [CHR 0x0A]
              @ ''    kb_path,'' @ [CHR 0x0A]
              @ ''    '' @ [CHR 0x22] @ [CHR 0x22] @ '','' @ [CHR 0x0A]
              @ ''    kb,'' @ [CHR 0x0A]
              @ ''    arraysize(kb)'' @ [CHR 0x0A]
              @ ''  },'' @ [CHR 0x0A]
              @ ''};'' @ [CHR 0x0A])"
proof -
  have h: "sorted_by_path (EnumerateInputs py_re example_fs [''/tmp/in:x'', ''/tmp/in:x/a''])
     = Inr [\<lparr>path = ''x/a/b'', opener = Inr ''b''\<rparr>, \<lparr>path = ''x/a/b'', opener = Inr ''b''\<rparr>]"
    unfolding example_twice by (simp add: sorted_by_path_def)
  have m: "matched py_re example_fs ''/tmp/in:x'' = [\<lparr>path = ''x/a/b'', opener = Inr ''b''\<rparr>]"
      "matched py_re example_fs ''/tmp/in:x/a'' = [\<lparr>path = ''x/a/b'', opener = Inr ''b''\<rparr>]"
    unfolding enumerate_input_matched [symmetric] by (simp_all add: example_eval)
  have sc: "length (scanned example_fs ''/tmp/in'') = 4" by (simp add: example_scanned)
  have w: "writable example_fs ''out.inl''" by (simp add: example_fs_def)
  have n: "GetName \<lparr>path = ''x/a/b'', opener = Inr ''b''\<rparr> = ''b''"
    by (simp add: GetName_def basename_def rfind_def str_replace_def)
  have x: "extension ''x/a/b'' = []"
    by (simp add: extension_def splitext_def rfind_def strip_leading_dot_def)
  have a: "array_decl \<lparr>path = ''x/a/b'', opener = Inr ''b''\<rparr>
           = ''static constexpr uint8 kb[] = { 98, };'' @ [CHR 0x0A]"
    by (simp add: array_decl_def content_def write_array_eq array_items_def n str.simps ord_def
        digit_chars)
  have p: "path_decl \<lparr>path = ''x/a/b'', opener = Inr ''b''\<rparr>
           = ''static constexpr char kb_path[] = '' @ [CHR 0x22] @ ''x/a/b'' @ [CHR 0x22] @ '';'' @ [CHR 0x0A]"
    by (simp add: path_decl_def n)
  show ?thesis
    using one_record_per_match [OF h, of "''out.inl''"] h m sc w
    by (simp add: n x a p del: EnumerateInputs.simps)
qed

end
